theory Spec2Isabelle
  imports Complex_Main
begin

section \<open>The stress-test object generator (scripts/generate-stress-jsonl.py)\<close>

text \<open>
  The script streams \<open>count\<close> object records, one per line. Each record takes its
  position from one of four infinite coordinate generators (snake rows, concentric square
  rings, circular rings, an outward square spiral) and its colours from a seeded random
  source.

  Conventions of the embedding.
  \<^item> Python's unbounded \<open>int\<close> is \<open>int\<close>; a counter that only counts up from a
    non-negative start (\<open>ring\<close>, \<open>row\<close>, \<open>leg_len\<close>, \<open>index\<close>) is \<open>nat\<close>.
  \<^item> Python's \<open>float\<close> is \<open>real\<close>. In the lattice patterns (snake, square rings,
    spiral) and in \<open>darken_hex\<close> a product of an integer and a float is the exact real
    product. The double arithmetic of the circle pattern (\<open>math.cos\<close>, \<open>math.sin\<close>,
    \<open>math.pi\<close>, its products and quotients, \<open>round\<close>) is a parameter of the model:
    nothing is assumed about its accuracy. Infinities and NaN are outside the model.
  \<^item> A generator is the function that returns the list of the first \<open>n\<close> points it
    yields; \<open>next\<close> called \<open>n\<close> times on a fresh generator receives exactly these.
    Each \<open>while True\<close> loop is a recursive function over the number of points still
    wanted, and each of its iterations is a list (the \<open>for\<close> loops of the body, in
    order).
\<close>

type_synonym point = "real \<times> real"

subsection \<open>Python ranges\<close>

definition py_range :: "int \<Rightarrow> int \<Rightarrow> int list" where
  \<comment> \<open>\<open>range(a, b)\<close>: \<open>a, a + 1, \<dots>, b - 1\<close>\<close>
  "py_range a b = [a..b - 1]"

definition py_range_down :: "int \<Rightarrow> int \<Rightarrow> int list" where
  \<comment> \<open>\<open>range(a, b, -1)\<close>: \<open>a, a - 1, \<dots>, b + 1\<close>\<close>
  "py_range_down a b = rev [b + 1..a]"

subsection \<open>square_ring_points\<close>

definition square_ring :: "real \<Rightarrow> nat \<Rightarrow> point list" where
  \<comment> \<open>one iteration of the \<open>while True\<close> loop: the four edges of ring \<open>ring\<close>\<close>
  "square_ring step ring =
     (let d = real ring * step in
        map (\<lambda>x. (of_int x * step, - d)) (py_range (- int ring) (int ring + 1)) @
        map (\<lambda>y. (d, of_int y * step)) (py_range (- int ring + 1) (int ring + 1)) @
        map (\<lambda>x. (of_int x * step, d)) (py_range_down (int ring - 1) (- int ring - 1)) @
        map (\<lambda>y. (- d, of_int y * step)) (py_range_down (int ring - 1) (- int ring)))"

lemma length_square_ring: "length (square_ring step ring) = (if ring = 0 then 1 else 8 * ring)"
  by (cases ring) (simp_all add: square_ring_def Let_def py_range_def py_range_down_def)

function square_ring_loop :: "real \<Rightarrow> nat \<Rightarrow> nat \<Rightarrow> point list" where
  "square_ring_loop step ring n =
     (let pts = square_ring step ring in
        if n \<le> length pts then take n pts
        else pts @ square_ring_loop step (ring + 1) (n - length pts))"
  by pat_completeness auto
termination
  by (relation "measure (\<lambda>(step, ring, n). n)") (auto simp: length_square_ring)

declare square_ring_loop.simps [simp del]

definition square_ring_points :: "real \<Rightarrow> nat \<Rightarrow> point list" where
  "square_ring_points step n =
     (if n = 0 then [] else (0, 0) # square_ring_loop step 1 (n - 1))"

subsection \<open>circle_ring_points\<close>

text \<open>
  The points of a circular ring come out of double arithmetic: the library's
  \<open>math.cos\<close>, \<open>math.sin\<close> and \<open>math.pi\<close>, rounded products and quotients, and
  \<open>round(x, 3)\<close>. None of it is code of this repository and its rounding errors are
  not those of the real functions, so the operations are a parameter of the model. A
  double is the real number it stands for; \<open>fl_mul\<close> and \<open>fl_div\<close> are the rounded
  product and quotient, \<open>fl_round x n\<close> is \<open>round(x, n)\<close>. How far the points of a ring
  lie from the circle is a property of this arithmetic, and is not stated in this theory;
  what the definitions fix is the order of the operations and the number of points.
\<close>

record float_lib =
  fl_mul :: "real \<Rightarrow> real \<Rightarrow> real"
  fl_div :: "real \<Rightarrow> real \<Rightarrow> real"
  fl_cos :: "real \<Rightarrow> real"
  fl_sin :: "real \<Rightarrow> real"
  fl_pi :: real
  fl_round :: "real \<Rightarrow> nat \<Rightarrow> real"

definition circle_ring :: "float_lib \<Rightarrow> real \<Rightarrow> nat \<Rightarrow> point list" where
  "circle_ring F step ring =
     (let radius = fl_mul F (real ring) step;
          samples = max (8 * int ring) 8 in
        map (\<lambda>i. let theta = fl_div F (fl_mul F (fl_mul F 2 (fl_pi F)) (of_int i))
                                (of_int samples);
                      x = fl_mul F radius (fl_cos F theta);
                      y = fl_mul F radius (fl_sin F theta)
                  in (fl_round F x 3, fl_round F y 3))
          (py_range 0 samples))"

lemma length_circle_ring: "length (circle_ring F step ring) = max (8 * ring) 8"
  by (simp add: circle_ring_def Let_def py_range_def)

function circle_ring_loop :: "float_lib \<Rightarrow> real \<Rightarrow> nat \<Rightarrow> nat \<Rightarrow> point list" where
  "circle_ring_loop F step ring n =
     (let pts = circle_ring F step ring in
        if n \<le> length pts then take n pts
        else pts @ circle_ring_loop F step (ring + 1) (n - length pts))"
  by pat_completeness auto
termination
  by (relation "measure (\<lambda>(F, step, ring, n). n)") (auto simp: length_circle_ring)

declare circle_ring_loop.simps [simp del]

definition circle_ring_points :: "float_lib \<Rightarrow> real \<Rightarrow> nat \<Rightarrow> point list" where
  "circle_ring_points F step n =
     (if n = 0 then [] else (0, 0) # circle_ring_loop F step 1 (n - 1))"

subsection \<open>snake_points\<close>

definition snake_row :: "real \<Rightarrow> int \<Rightarrow> real \<Rightarrow> nat \<Rightarrow> point list" where
  "snake_row step columns row_step row =
     (if row mod 2 = 0
      then map (\<lambda>col. (of_int col * step, real row * row_step)) (py_range 0 columns)
      else map (\<lambda>col. (of_int col * step, real row * row_step))
             (py_range_down (columns - 1) (- 1)))"

lemma length_snake_row: "length (snake_row step columns row_step row) = nat columns"
  by (simp add: snake_row_def py_range_def py_range_down_def)

text \<open>
  The loop is entered with \<open>columns = max(columns, 1)\<close>, so every row yields at least
  one point. The first test below is not in the source: it makes the function total for
  the values of \<open>columns\<close> the loop is never entered with (Python would spin there
  without yielding); \<open>snake_points\<close> never reaches it.
\<close>

function snake_loop :: "real \<Rightarrow> int \<Rightarrow> real \<Rightarrow> nat \<Rightarrow> nat \<Rightarrow> point list" where
  "snake_loop step columns row_step row n =
     (if columns < 1 then []
      else let pts = snake_row step columns row_step row in
        if n \<le> length pts then take n pts
        else pts @ snake_loop step columns row_step (row + 1) (n - length pts))"
  by pat_completeness auto
termination
  by (relation "measure (\<lambda>(step, columns, row_step, row, n). n)")
    (auto simp: length_snake_row)

declare snake_loop.simps [simp del]

definition snake_points :: "real \<Rightarrow> int \<Rightarrow> real \<Rightarrow> nat \<Rightarrow> point list" where
  "snake_points step columns row_gap n =
     (let columns = max columns 1;
          row_step = step + row_gap
      in snake_loop step columns row_step 0 n)"

subsection \<open>spiral_points\<close>

text \<open>
  One \<open>for _ in range(leg_len)\<close> loop: \<open>k\<close> unit moves by \<open>(dx, dy)\<close> from the
  lattice point \<open>(x, y)\<close>, each followed by a yield of the scaled position.
\<close>

fun spiral_leg :: "real \<Rightarrow> int \<Rightarrow> int \<Rightarrow> int \<Rightarrow> int \<Rightarrow> nat \<Rightarrow> point list" where
  "spiral_leg step dx dy x y 0 = []"
| "spiral_leg step dx dy x y (Suc k) =
     (of_int (x + dx) * step, of_int (y + dy) * step) #
       spiral_leg step dx dy (x + dx) (y + dy) k"

definition spiral_round :: "real \<Rightarrow> int \<Rightarrow> int \<Rightarrow> nat \<Rightarrow> point list" where
  \<comment> \<open>one iteration of the \<open>while True\<close> loop, entered at \<open>(x, y)\<close> with \<open>leg_len\<close>\<close>
  "spiral_round step x y leg_len =
     spiral_leg step 1 0 x y leg_len @
     spiral_leg step 0 1 (x + int leg_len) y leg_len @
     spiral_leg step (- 1) 0 (x + int leg_len) (y + int leg_len) (leg_len + 1) @
     spiral_leg step 0 (- 1) (x - 1) (y + int leg_len) (leg_len + 1)"

lemma length_spiral_leg: "length (spiral_leg step dx dy x y k) = k"
  by (induction k arbitrary: x y) auto

lemma length_spiral_round: "length (spiral_round step x y leg_len) = 4 * leg_len + 2"
  by (simp add: spiral_round_def length_spiral_leg)

function spiral_loop :: "real \<Rightarrow> int \<Rightarrow> int \<Rightarrow> nat \<Rightarrow> nat \<Rightarrow> point list" where
  "spiral_loop step x y leg_len n =
     (let pts = spiral_round step x y leg_len in
        if n \<le> length pts then take n pts
        else pts @ spiral_loop step (x - 1) (y - 1) (leg_len + 2) (n - length pts))"
  by pat_completeness auto
termination
  by (relation "measure (\<lambda>(step, x, y, leg_len, n). n)") (auto simp: length_spiral_round)

declare spiral_loop.simps [simp del]

definition spiral_points :: "real \<Rightarrow> nat \<Rightarrow> point list" where
  "spiral_points step n =
     (if n = 0 then [] else (0, 0) # spiral_loop step 0 0 1 (n - 1))"

subsection \<open>Colours: random_hex_color and darken_hex\<close>

datatype error = ValueError | SystemExit string

definition hex_digit :: "nat \<Rightarrow> char" where
  "hex_digit d = ''0123456789abcdef'' ! d"

fun to_hex :: "nat \<Rightarrow> string" where
  "to_hex n = (if n < 16 then [hex_digit n] else to_hex (n div 16) @ [hex_digit (n mod 16)])"

declare to_hex.simps [simp del]

definition format_02x :: "int \<Rightarrow> string" where
  \<comment> \<open>\<open>f"{v:02x}"\<close>: lower-case hexadecimal, zero-padded to width 2\<close>
  "format_02x v =
     (if v < 0 then CHR ''-'' # to_hex (nat (- v))
      else let s = to_hex (nat v) in replicate (2 - length s) CHR ''0'' @ s)"

definition hex_value :: "char \<Rightarrow> nat option" where
  "hex_value c =
     (let n = (of_char c :: nat) in
        if 48 \<le> n \<and> n \<le> 57 then Some (n - 48)
        else if 97 \<le> n \<and> n \<le> 102 then Some (n - 87)
        else if 65 \<le> n \<and> n \<le> 70 then Some (n - 55)
        else None)"

fun hex_digits_value :: "nat \<Rightarrow> string \<Rightarrow> nat option" where
  "hex_digits_value acc [] = Some acc"
| "hex_digits_value acc (c # cs) =
     (case hex_value c of
        None \<Rightarrow> None
      | Some d \<Rightarrow> hex_digits_value (16 * acc + d) cs)"

text \<open>
  \<open>int(s, 16)\<close> on a string of hexadecimal digits. Python's \<open>int\<close> also accepts
  surrounding whitespace, a sign, a \<open>0x\<close> prefix and underscores between digits; the
  script only parses slices of colours it has formatted itself, so the model reports every
  string that is not a non-empty run of hexadecimal digits as \<open>ValueError\<close>.
\<close>

definition py_int16 :: "string \<Rightarrow> error + int" where
  "py_int16 s =
     (if s = [] then Inl ValueError
      else case hex_digits_value 0 s of
             None \<Rightarrow> Inl ValueError
           | Some v \<Rightarrow> Inr (int v))"

definition py_int :: "real \<Rightarrow> int" where
  \<comment> \<open>\<open>int(x)\<close> of a float: truncation towards zero\<close>
  "py_int x = (if 0 \<le> x then \<lfloor>x\<rfloor> else \<lceil>x\<rceil>)"

definition darken_hex :: "string \<Rightarrow> real \<Rightarrow> error + string" where
  "darken_hex color factor =
     (let color = dropWhile (\<lambda>c. c = CHR ''#'') color in
        case py_int16 (take 2 color) of
          Inl e \<Rightarrow> Inl e
        | Inr r \<Rightarrow>
            (case py_int16 (take 2 (drop 2 color)) of
               Inl e \<Rightarrow> Inl e
             | Inr g \<Rightarrow>
                 (case py_int16 (take 2 (drop 4 color)) of
                    Inl e \<Rightarrow> Inl e
                  | Inr b \<Rightarrow>
                      (let r = max 0 (min 255 (py_int (of_int r * factor)));
                           g = max 0 (min 255 (py_int (of_int g * factor)));
                           b = max 0 (min 255 (py_int (of_int b * factor)))
                       in Inr (CHR ''#'' # format_02x r @ format_02x g @ format_02x b)))))"

text \<open>
  \<open>random.Random\<close> is the standard library's generator, not code of this repository:
  it is a parameter of the model. \<open>lib_seed s\<close> is the state of \<open>random.Random(s)\<close> for
  an integer \<open>s\<close>, and \<open>lib_randint g a b\<close> is the value of \<open>g.randint(a, b)\<close> with the
  state that follows. \<open>random.Random(None)\<close> seeds itself from the operating system:
  its state is the run's \<open>entropy\<close>, an input of the run.
\<close>

record 'g random_lib =
  lib_seed :: "int \<Rightarrow> 'g"
  lib_randint :: "'g \<Rightarrow> int \<Rightarrow> int \<Rightarrow> int \<times> 'g"

definition Random :: "'g random_lib \<Rightarrow> 'g \<Rightarrow> int option \<Rightarrow> 'g" where
  "Random R entropy seed = (case seed of None \<Rightarrow> entropy | Some s \<Rightarrow> lib_seed R s)"

definition randint_in_range :: "'g random_lib \<Rightarrow> bool" where
  \<comment> \<open>the library's contract: \<open>a \<le> randint(a, b) \<le> b\<close>\<close>
  "randint_in_range R =
     (\<forall>g a b. a \<le> b \<longrightarrow> a \<le> fst (lib_randint R g a b) \<and> fst (lib_randint R g a b) \<le> b)"

definition random_hex_color :: "'g random_lib \<Rightarrow> 'g \<Rightarrow> string \<times> 'g" where
  "random_hex_color R rng =
     (let (r, rng) = lib_randint R rng 0 255;
          (g, rng) = lib_randint R rng 0 255;
          (b, rng) = lib_randint R rng 0 255
      in (CHR ''#'' # format_02x r @ format_02x g @ format_02x b, rng))"

subsection \<open>main\<close>

datatype pattern = Snake | Square | Ring | Spiral

record args =
  args_count :: int
  args_size :: real
  args_start_x :: real
  args_start_y :: real
  args_pattern :: pattern
  args_columns :: int
  args_row_gap :: real
  args_seed :: "int option"

definition default_args :: args where
  \<comment> \<open>the defaults of \<open>parse_args\<close>\<close>
  "default_args =
     \<lparr>args_count = 1000, args_size = 10, args_start_x = 0, args_start_y = 0,
      args_pattern = Snake, args_columns = 40, args_row_gap = 10, args_seed = None\<rparr>"

record props =
  props_fill :: string
  props_stroke :: string
  props_strokeWidth :: int

record obj =
  obj_type :: string
  obj_kind :: string
  obj_x :: real
  obj_y :: real
  obj_width :: real
  obj_height :: real
  obj_rotation :: real
  obj_z_index :: int
  obj_props :: props

datatype outcome = Returned int | Raised error

definition exit_status :: "outcome \<Rightarrow> int" where
  \<comment> \<open>\<open>raise SystemExit(main())\<close>: a returned integer is the status, a message or an
      uncaught exception gives status 1\<close>
  "exit_status r = (case r of Returned n \<Rightarrow> n | Raised e \<Rightarrow> 1)"

text \<open>
  The output of a run is the list of the records it writes to standard output, in order;
  the JSON encoder is not modelled. The model is of a run whose reader stays to the end,
  so that every write succeeds. \<open>main\<close> begins by setting \<open>SIGPIPE\<close> back to its
  default action: when the reader goes away the operating system ends the process with
  that signal at a write, the \<open>except BrokenPipeError\<close> branch of the loop is not
  reached, and how many records had left the output buffer by then is not a matter of
  the program text. Such a run is outside the model.

  The \<open>for index in range(args.count)\<close> loop. \<open>points\<close> holds what the \<open>count\<close> calls
  of \<open>next(points)\<close> return, in order; the loop ends when they are used up.
\<close>

fun main_loop ::
  "'g random_lib \<Rightarrow> args \<Rightarrow> nat \<Rightarrow> point list \<Rightarrow> 'g \<Rightarrow> obj list \<times> outcome"
where
  "main_loop R args index [] rng = ([], Returned 0)"
| "main_loop R args index ((dx, dy) # points) rng =
     (let (fill, rng) = random_hex_color R rng in
        case darken_hex fill 0.72 of
          Inl e \<Rightarrow> ([], Raised e)
        | Inr border \<Rightarrow>
            (let kind = (if index mod 2 \<noteq> 0 then ''ellipse'' else ''rectangle'');
                 obj = \<lparr>obj_type = ''object'',
                        obj_kind = kind,
                        obj_x = args_start_x args + dx,
                        obj_y = args_start_y args + dy,
                        obj_width = args_size args,
                        obj_height = args_size args,
                        obj_rotation = 0,
                        obj_z_index = int index,
                        obj_props = \<lparr>props_fill = fill, props_stroke = border,
                                     props_strokeWidth = 1\<rparr>\<rparr>;
                 (out, res) = main_loop R args (index + 1) points rng
             in (obj # out, res)))"

definition main ::
  "'g random_lib \<Rightarrow> float_lib \<Rightarrow> 'g \<Rightarrow> args \<Rightarrow> obj list \<times> outcome"
where
  "main R F entropy args =
     (if args_count args \<le> 0 then ([], Returned 0)
      else if args_size args \<le> 0 then ([], Raised (SystemExit ''--size must be > 0''))
      else
        (let rng = Random R entropy (args_seed args);
             n = nat (args_count args);
             points =
               (if args_pattern args = Snake
                then snake_points (args_size args) (args_columns args) (args_row_gap args) n
                else if args_pattern args = Square then square_ring_points (args_size args) n
                else if args_pattern args = Spiral then spiral_points (args_size args) n
                else circle_ring_points F (args_size args) n)
         in main_loop R args 0 points rng))"

text \<open>
  A small linear congruential generator, used where a run is evaluated on a concrete
  input. It keeps the library's contract.
\<close>

definition lcg :: "nat random_lib" where
  "lcg = \<lparr>lib_seed = (\<lambda>s. nat \<bar>s\<bar> mod 65537),
          lib_randint = (\<lambda>g a b. (a + int g mod (b - a + 1), (75 * g + 74) mod 65537))\<rparr>"

text \<open>
  Exact arithmetic in the place of the double arithmetic, for the same use: the real
  functions, and rounding to the nearest multiple of \<open>10 ^ (- ndigits)\<close> with ties to
  even. It is one value of the parameter, not a description of doubles.
\<close>

definition round_half_even :: "real \<Rightarrow> int" where
  "round_half_even x =
     (let f = \<lfloor>x\<rfloor>; r = x - of_int f in
        if r < 1 / 2 then f else if 1 / 2 < r then f + 1
        else if even f then f else f + 1)"

definition exact_arith :: float_lib where
  "exact_arith =
     \<lparr>fl_mul = (\<lambda>a b. a * b), fl_div = (\<lambda>a b. a / b), fl_cos = cos, fl_sin = sin, fl_pi = pi,
      fl_round = (\<lambda>x ndigits. of_int (round_half_even (x * 10 ^ ndigits)) / 10 ^ ndigits)\<rparr>"

section \<open>Auxiliary facts\<close>

subsection \<open>Hexadecimal formatting and parsing\<close>

lemma lt_16_cases:
  "d < 16 \<Longrightarrow> d \<in> {0, 1, 2, 3, 4, 5, 6, 7, 8, 9, 10, 11, 12, 13, 14, 15::nat}"
  by simp arith

lemma hex_value_hex_digit: "d < 16 \<Longrightarrow> hex_value (hex_digit d) = Some d"
proof -
  assume "d < 16"
  then have "d \<in> {0, 1, 2, 3, 4, 5, 6, 7, 8, 9, 10, 11, 12, 13, 14, 15}" by (rule lt_16_cases)
  then show ?thesis
    by (auto simp: hex_value_def hex_digit_def)
qed

lemma hex_digit_not_hash: "d < 16 \<Longrightarrow> hex_digit d \<noteq> CHR ''#''"
proof -
  assume "d < 16"
  then have "d \<in> {0, 1, 2, 3, 4, 5, 6, 7, 8, 9, 10, 11, 12, 13, 14, 15}" by (rule lt_16_cases)
  then show ?thesis
    by (auto simp: hex_digit_def)
qed

lemma format_02x_byte:
  assumes "0 \<le> v" "v \<le> 255"
  shows "format_02x v = [hex_digit (nat v div 16), hex_digit (nat v mod 16)]"
proof (cases "nat v < 16")
  case True
  then show ?thesis using assms
    by (simp add: format_02x_def to_hex.simps [of "nat v"] Let_def hex_digit_def)
next
  case False
  moreover from assms have "nat v div 16 < 16" by auto
  ultimately show ?thesis using assms
    by (simp add: format_02x_def to_hex.simps [of "nat v"] to_hex.simps [of "nat v div 16"] Let_def)
qed

lemma py_int16_two_digits:
  "a < 16 \<Longrightarrow> b < 16 \<Longrightarrow> py_int16 [hex_digit a, hex_digit b] = Inr (int (16 * a + b))"
  by (simp add: py_int16_def hex_value_hex_digit)

lemma py_int16_format_02x:
  assumes "0 \<le> v" "v \<le> 255"
  shows "py_int16 (format_02x v) = Inr v"
proof -
  from assms have "nat v div 16 < 16" "nat v mod 16 < 16" by auto
  then show ?thesis using assms
    by (simp add: format_02x_byte py_int16_two_digits del: of_nat_add of_nat_mult)
qed


text \<open>What \<open>darken_hex\<close> does to one channel value.\<close>

definition scale_channel :: "int \<Rightarrow> real \<Rightarrow> int" where
  "scale_channel v factor = max 0 (min 255 (py_int (of_int v * factor)))"

lemma scale_channel_range: "0 \<le> scale_channel v factor \<and> scale_channel v factor \<le> 255"
  by (simp add: scale_channel_def)

lemma hex_value_less: "hex_value c = Some d \<Longrightarrow> d < 16"
  by (auto simp: hex_value_def Let_def split: if_splits)

lemma py_int16_pair:
  "hex_value a = Some va \<Longrightarrow> hex_value b = Some vb \<Longrightarrow> py_int16 [a, b] = Inr (int (16 * va + vb))"
  by (simp add: py_int16_def)

lemma darken_hex_six:
  assumes strip: "dropWhile (\<lambda>c. c = CHR ''#'') color = [a, b, c, d, e, f]"
    and "hex_value a = Some va" "hex_value b = Some vb"
    and "hex_value c = Some vc" "hex_value d = Some vd"
    and "hex_value e = Some ve" "hex_value f = Some vf"
  shows "darken_hex color factor =
     Inr (CHR ''#'' # format_02x (scale_channel (int (16 * va + vb)) factor) @
            format_02x (scale_channel (int (16 * vc + vd)) factor) @
            format_02x (scale_channel (int (16 * ve + vf)) factor))"
  using assms(2-)
  by (simp add: darken_hex_def strip Let_def py_int16_pair scale_channel_def
      del: of_nat_add of_nat_mult)

lemma darken_hex_formatted:
  assumes "0 \<le> r" "r \<le> 255" "0 \<le> g" "g \<le> 255" "0 \<le> b" "b \<le> 255"
  shows "darken_hex (CHR ''#'' # format_02x r @ format_02x g @ format_02x b) factor =
     Inr (CHR ''#'' # format_02x (scale_channel r factor) @
            format_02x (scale_channel g factor) @
            format_02x (scale_channel b factor))"
proof -
  have d: "nat r div 16 < 16" "nat r mod 16 < 16" "nat g div 16 < 16" "nat g mod 16 < 16"
    "nat b div 16 < 16" "nat b mod 16 < 16"
    using assms by auto
  have strip: "dropWhile (\<lambda>c. c = CHR ''#'') (CHR ''#'' # format_02x r @ format_02x g @ format_02x b)
      = [hex_digit (nat r div 16), hex_digit (nat r mod 16),
         hex_digit (nat g div 16), hex_digit (nat g mod 16),
         hex_digit (nat b div 16), hex_digit (nat b mod 16)]"
    using assms d by (simp add: format_02x_byte hex_digit_not_hash)
  have "darken_hex (CHR ''#'' # format_02x r @ format_02x g @ format_02x b) factor =
     Inr (CHR ''#'' # format_02x (scale_channel (int (16 * (nat r div 16) + nat r mod 16)) factor) @
            format_02x (scale_channel (int (16 * (nat g div 16) + nat g mod 16)) factor) @
            format_02x (scale_channel (int (16 * (nat b div 16) + nat b mod 16)) factor))"
    by (rule darken_hex_six [OF strip]) (simp_all add: hex_value_hex_digit d)
  moreover have "int (16 * (nat r div 16) + nat r mod 16) = r"
    "int (16 * (nat g div 16) + nat g mod 16) = g"
    "int (16 * (nat b div 16) + nat b mod 16) = b"
    using assms by simp_all
  ultimately show ?thesis by simp
qed



subsection \<open>The loop of main\<close>

text \<open>
  Names for the parts of one iteration: \<open>stroke_of fill\<close> is the call
  \<open>darken_hex(fill, 0.72)\<close>, \<open>make_obj\<close> the record built from the index, the point
  and the two colours. \<open>color_sequence R rng n\<close> is the list of the first \<open>n\<close>
  (fill, stroke) pairs drawn from the generator state \<open>rng\<close>, cut short where
  \<open>darken_hex\<close> raises. \<open>position\<close>, \<open>colors\<close> and \<open>kind_of_index\<close> read a record's
  coordinates and colours and give the kind that belongs to an index.
\<close>

definition stroke_of :: "string \<Rightarrow> error + string" where
  "stroke_of fill = darken_hex fill 0.72"

definition make_obj :: "args \<Rightarrow> nat \<Rightarrow> point \<Rightarrow> string \<Rightarrow> string \<Rightarrow> obj" where
  "make_obj args index p fill border =
     \<lparr>obj_type = ''object'',
      obj_kind = (if index mod 2 \<noteq> 0 then ''ellipse'' else ''rectangle''),
      obj_x = args_start_x args + fst p,
      obj_y = args_start_y args + snd p,
      obj_width = args_size args,
      obj_height = args_size args,
      obj_rotation = 0,
      obj_z_index = int index,
      obj_props = \<lparr>props_fill = fill, props_stroke = border, props_strokeWidth = 1\<rparr>\<rparr>"

fun color_sequence :: "'g random_lib \<Rightarrow> 'g \<Rightarrow> nat \<Rightarrow> (string \<times> string) list" where
  "color_sequence R rng 0 = []"
| "color_sequence R rng (Suc n) =
     (let (fill, rng) = random_hex_color R rng in
        case stroke_of fill of
          Inl e \<Rightarrow> []
        | Inr border \<Rightarrow> (fill, border) # color_sequence R rng n)"

definition position :: "obj \<Rightarrow> point" where
  "position ob = (obj_x ob, obj_y ob)"

definition colors :: "obj \<Rightarrow> string \<times> string" where
  "colors ob = (props_fill (obj_props ob), props_stroke (obj_props ob))"

definition kind_of_index :: "nat \<Rightarrow> string" where
  "kind_of_index i = (if even i then ''rectangle'' else ''ellipse'')"

lemma main_loop_Cons:
  "main_loop R args index (p # points) rng =
     (case stroke_of (fst (random_hex_color R rng)) of
        Inl e \<Rightarrow> ([], Raised e)
      | Inr border \<Rightarrow>
          (make_obj args index p (fst (random_hex_color R rng)) border #
             fst (main_loop R args (Suc index) points (snd (random_hex_color R rng))),
           snd (main_loop R args (Suc index) points (snd (random_hex_color R rng)))))"
  by (cases p) (simp add: stroke_of_def make_obj_def split_beta Let_def split: sum.splits)

lemma upt_shift: "[index..<index + Suc n] = index # [Suc index..<Suc index + n]"
  by (simp add: upt_conv_Cons del: upt_Suc)

lemma main_loop_z_index:
  "map obj_z_index (fst (main_loop R args index points rng)) =
     map int [index..<index + length (fst (main_loop R args index points rng))]"
proof (induction points arbitrary: index rng)
  case Nil
  show ?case by simp
next
  case (Cons p points)
  show ?case
  proof (cases "stroke_of (fst (random_hex_color R rng))")
    case (Inl e)
    then show ?thesis by (simp add: main_loop_Cons)
  next
    case (Inr border)
    with Cons.IH [of "Suc index" "snd (random_hex_color R rng)"] show ?thesis
      by (simp only: main_loop_Cons sum.case fst_conv list.map length_Cons upt_shift)
        (simp add: make_obj_def)
  qed
qed

lemma main_loop_kind:
  "map obj_kind (fst (main_loop R args index points rng)) =
     map kind_of_index [index..<index + length (fst (main_loop R args index points rng))]"
proof (induction points arbitrary: index rng)
  case Nil
  show ?case by simp
next
  case (Cons p points)
  show ?case
  proof (cases "stroke_of (fst (random_hex_color R rng))")
    case (Inl e)
    then show ?thesis by (simp add: main_loop_Cons)
  next
    case (Inr border)
    have "obj_kind (make_obj args index p (fst (random_hex_color R rng)) border) =
        kind_of_index index"
      by (auto simp add: make_obj_def kind_of_index_def simp flip: odd_iff_mod_2_eq_one)
    with Inr Cons.IH [of "Suc index" "snd (random_hex_color R rng)"] show ?thesis
      by (simp only: main_loop_Cons sum.case fst_conv list.map length_Cons upt_shift)
  qed
qed

lemma main_loop_position:
  "map position (fst (main_loop R args index points rng)) =
     map (\<lambda>p. (args_start_x args + fst p, args_start_y args + snd p))
       (take (length (fst (main_loop R args index points rng))) points)"
proof (induction points arbitrary: index rng)
  case Nil
  show ?case by simp
next
  case (Cons p points)
  show ?case
    using Cons.IH [of "Suc index" "snd (random_hex_color R rng)"]
    by (simp only: main_loop_Cons split: sum.splits)
       (simp add: make_obj_def position_def)
qed

lemma main_loop_colors:
  "map colors (fst (main_loop R args index points rng)) =
     color_sequence R rng (length (fst (main_loop R args index points rng)))"
proof (induction points arbitrary: index rng)
  case Nil
  show ?case by simp
next
  case (Cons p points)
  show ?case
    using Cons.IH [of "Suc index" "snd (random_hex_color R rng)"]
    by (simp only: main_loop_Cons split: sum.splits)
       (simp add: make_obj_def colors_def split_beta)
qed

lemma main_loop_length_le:
  "length (fst (main_loop R args index points rng)) \<le> length points"
proof (induction points arbitrary: index rng)
  case Nil
  show ?case by simp
next
  case (Cons p points)
  show ?case
    using Cons.IH [of "Suc index" "snd (random_hex_color R rng)"]
    by (simp only: main_loop_Cons split: sum.splits) simp
qed

lemma random_hex_color_stroke:
  assumes "randint_in_range R"
  shows "\<exists>border. stroke_of (fst (random_hex_color R rng)) = Inr border"
proof -
  obtain r g1 where r: "lib_randint R rng 0 255 = (r, g1)" by (cases "lib_randint R rng 0 255")
  obtain g g2 where g: "lib_randint R g1 0 255 = (g, g2)" by (cases "lib_randint R g1 0 255")
  obtain b g3 where b: "lib_randint R g2 0 255 = (b, g3)" by (cases "lib_randint R g2 0 255")
  from assms have "\<And>st. 0 \<le> fst (lib_randint R st 0 255) \<and> fst (lib_randint R st 0 255) \<le> 255"
    by (simp add: randint_in_range_def)
  from this [of rng] this [of g1] this [of g2]
  have rng: "0 \<le> r" "r \<le> 255" "0 \<le> g" "g \<le> 255" "0 \<le> b" "b \<le> 255"
    by (simp_all add: r g b)
  have "fst (random_hex_color R rng) = CHR ''#'' # format_02x r @ format_02x g @ format_02x b"
    by (simp add: random_hex_color_def r g b)
  then show ?thesis
    unfolding stroke_of_def by (simp only: darken_hex_formatted [OF rng]) blast
qed

lemma main_loop_length:
  assumes "randint_in_range R"
  shows "length (fst (main_loop R args index points rng)) = length points"
proof (induction points arbitrary: index rng)
  case Nil
  show ?case by simp
next
  case (Cons p points)
  obtain border where "stroke_of (fst (random_hex_color R rng)) = Inr border"
    using random_hex_color_stroke [OF assms] by blast
  then show ?case
    using Cons.IH [of "Suc index" "snd (random_hex_color R rng)"]
    by (simp add: main_loop_Cons)
qed

lemma main_loop_outcome:
  assumes "randint_in_range R"
  shows "snd (main_loop R args index points rng) = Returned 0"
proof (induction points arbitrary: index rng)
  case Nil
  show ?case by simp
next
  case (Cons p points)
  obtain border where "stroke_of (fst (random_hex_color R rng)) = Inr border"
    using random_hex_color_stroke [OF assms] by blast
  then show ?case
    using Cons.IH [of "Suc index" "snd (random_hex_color R rng)"]
    by (simp add: main_loop_Cons)
qed

lemma lcg_in_range: "randint_in_range lcg"
proof -
  have "a + int g mod (b - a + 1) \<le> b" if "a \<le> b" for a b :: int and g :: nat
  proof -
    from that have "int g mod (b - a + 1) < b - a + 1" by (intro pos_mod_bound) simp
    then show ?thesis by simp
  qed
  moreover have "a \<le> a + int g mod (b - a + 1)" if "a \<le> b" for a b :: int and g :: nat
  proof -
    from that have "0 \<le> int g mod (b - a + 1)" by (intro pos_mod_sign) simp
    then show ?thesis by simp
  qed
  ultimately show ?thesis by (simp add: randint_in_range_def lcg_def)
qed

subsection \<open>A generator asked for n points yields n points\<close>

lemma length_square_ring_loop: "length (square_ring_loop step ring n) = n"
proof (induction step ring n rule: square_ring_loop.induct)
  case (1 step ring n)
  then show ?case
    by (subst square_ring_loop.simps) (simp add: Let_def)
qed

lemma length_circle_ring_loop: "length (circle_ring_loop F step ring n) = n"
proof (induction F step ring n rule: circle_ring_loop.induct)
  case (1 F step ring n)
  then show ?case
    by (subst circle_ring_loop.simps) (simp add: Let_def)
qed

lemma length_spiral_loop: "length (spiral_loop step x y leg_len n) = n"
proof (induction step x y leg_len n rule: spiral_loop.induct)
  case (1 step x y leg_len n)
  then show ?case
    by (subst spiral_loop.simps) (simp add: Let_def)
qed

lemma length_snake_loop: "1 \<le> columns \<Longrightarrow> length (snake_loop step columns row_step row n) = n"
proof (induction step columns row_step row n rule: snake_loop.induct)
  case (1 step columns row_step row n)
  then show ?case
    by (subst snake_loop.simps) (simp add: Let_def)
qed

text \<open>The generator that \<open>main\<close> selects, as a function of the arguments.\<close>

definition selected_points :: "float_lib \<Rightarrow> args \<Rightarrow> nat \<Rightarrow> point list" where
  "selected_points F args n =
     (if args_pattern args = Snake
      then snake_points (args_size args) (args_columns args) (args_row_gap args) n
      else if args_pattern args = Square then square_ring_points (args_size args) n
      else if args_pattern args = Spiral then spiral_points (args_size args) n
      else circle_ring_points F (args_size args) n)"

lemma length_selected_points: "length (selected_points F args n) = n"
  by (simp add: selected_points_def snake_points_def square_ring_points_def spiral_points_def
      circle_ring_points_def length_snake_loop length_square_ring_loop length_spiral_loop
      length_circle_ring_loop)

lemma main_run:
  assumes "0 < args_count args" "0 < args_size args"
  shows "main R F entropy args =
     main_loop R args 0 (selected_points F args (nat (args_count args)))
       (Random R entropy (args_seed args))"
  using assms by (simp add: main_def selected_points_def Let_def)

lemma main_no_run:
  assumes "args_count args \<le> 0"
  shows "main R F entropy args = ([], Returned 0)"
  using assms by (simp add: main_def)

subsection \<open>Runs of main\<close>

lemma main_length:
  assumes "randint_in_range R" and "0 < args_size args \<or> args_count args \<le> 0"
  shows "length (fst (main R F entropy args)) = nat (max (args_count args) 0)"
proof (cases "args_count args \<le> 0")
  case True
  then show ?thesis by (simp add: main_no_run max_def)
next
  case False
  with assms(2) have "0 < args_count args" "0 < args_size args" by auto
  then show ?thesis
    by (simp add: main_run main_loop_length [OF assms(1)] length_selected_points max_def)
qed

lemma main_z_index:
  "map obj_z_index (fst (main R F entropy args)) =
     map int [0..<length (fst (main R F entropy args))]"
proof (cases "0 < args_count args \<and> 0 < args_size args")
  case True
  then show ?thesis
    using main_loop_z_index [of R args 0] by (simp add: main_run)
next
  case False
  then show ?thesis by (auto simp: main_def)
qed

lemma main_kind:
  "map obj_kind (fst (main R F entropy args)) =
     map kind_of_index [0..<length (fst (main R F entropy args))]"
proof (cases "0 < args_count args \<and> 0 < args_size args")
  case True
  then show ?thesis
    using main_loop_kind [of R args 0] by (simp add: main_run)
next
  case False
  then show ?thesis by (auto simp: main_def)
qed

lemma main_length_le: "int (length (fst (main R F entropy args))) \<le> max (args_count args) 0"
proof (cases "0 < args_count args \<and> 0 < args_size args")
  case True
  then show ?thesis
    using main_loop_length_le [of R args 0 "selected_points F args (nat (args_count args))"
        "Random R entropy (args_seed args)"]
    by (simp add: main_run length_selected_points) linarith
next
  case False
  then show ?thesis by (auto simp: main_def)
qed

lemma main_status:
  assumes "randint_in_range R" and "0 < args_size args \<or> args_count args \<le> 0"
  shows "exit_status (snd (main R F entropy args)) = 0"
proof (cases "args_count args \<le> 0")
  case True
  then show ?thesis by (simp add: main_no_run exit_status_def)
next
  case False
  with assms(2) have "0 < args_count args" "0 < args_size args" by auto
  then show ?thesis
    by (simp add: main_run main_loop_outcome [OF assms(1)] exit_status_def)
qed

subsection \<open>The square rings\<close>

text \<open>
  \<open>scale step\<close> takes a lattice point to the point the generators yield for it.
  \<open>rounds body i k\<close> is what \<open>k\<close> consecutive iterations of a \<open>while True\<close>
  loop yield, \<open>body j\<close> being the points of iteration \<open>j\<close> and \<open>i\<close> the first
  iteration.
\<close>

definition scale :: "real \<Rightarrow> int \<times> int \<Rightarrow> point" where
  "scale step p = (of_int (fst p) * step, of_int (snd p) * step)"

definition square_ring_lattice :: "nat \<Rightarrow> (int \<times> int) list" where
  "square_ring_lattice ring =
     map (\<lambda>x. (x, - int ring)) [- int ring..int ring] @
     map (\<lambda>y. (int ring, y)) [- int ring + 1..int ring] @
     map (\<lambda>x. (x, int ring)) (rev [- int ring..int ring - 1]) @
     map (\<lambda>y. (- int ring, y)) (rev [- int ring + 1..int ring - 1])"

lemma square_ring_scaled: "square_ring step ring = map (scale step) (square_ring_lattice ring)"
  by (simp add: square_ring_def square_ring_lattice_def scale_def Let_def py_range_def
      py_range_down_def comp_def rev_map)

lemma inj_scale: "step \<noteq> 0 \<Longrightarrow> inj (scale step)"
  by (auto simp: inj_on_def scale_def)

lemma distinct_square_ring_lattice: "1 \<le> ring \<Longrightarrow> distinct (square_ring_lattice ring)"
  by (auto simp: square_ring_lattice_def distinct_map inj_on_def)

lemma distinct_square_ring: "step \<noteq> 0 \<Longrightarrow> 1 \<le> ring \<Longrightarrow> distinct (square_ring step ring)"
  by (simp add: square_ring_scaled distinct_map distinct_square_ring_lattice
      inj_on_subset [OF inj_scale])

lemma count_list_distinct: "distinct xs \<Longrightarrow> x \<in> set xs \<Longrightarrow> count_list xs x = 1"
  by (induction xs) auto

lemma square_ring_lattice_max:
  "p \<in> set (square_ring_lattice ring) \<Longrightarrow> max \<bar>fst p\<bar> \<bar>snd p\<bar> = int ring"
  by (auto simp: square_ring_lattice_def)

lemma square_ring_lattice_corners:
  "(- int ring, - int ring) \<in> set (square_ring_lattice ring)"
  "(int ring, - int ring) \<in> set (square_ring_lattice ring)"
  "1 \<le> ring \<Longrightarrow> (int ring, int ring) \<in> set (square_ring_lattice ring)"
  "1 \<le> ring \<Longrightarrow> (- int ring, int ring) \<in> set (square_ring_lattice ring)"
  by (auto simp: square_ring_lattice_def)


fun rounds :: "(nat \<Rightarrow> 'a list) \<Rightarrow> nat \<Rightarrow> nat \<Rightarrow> 'a list" where
  "rounds body i 0 = []"
| "rounds body i (Suc k) = body i @ rounds body (Suc i) k"

lemma square_ring_loop_prefix:
  "n \<le> length (rounds (square_ring step) ring k) \<Longrightarrow>
   square_ring_loop step ring n = take n (rounds (square_ring step) ring k)"
proof (induction k arbitrary: ring n)
  case 0
  then show ?case by (simp add: square_ring_loop.simps [of step ring 0])
next
  case (Suc k)
  show ?case
  proof (cases "n \<le> length (square_ring step ring)")
    case True
    then show ?thesis
      by (simp add: square_ring_loop.simps [of step ring n])
  next
    case False
    with Suc.prems
    have "n - length (square_ring step ring) \<le> length (rounds (square_ring step) (Suc ring) k)"
      by simp
    from Suc.IH [OF this] False show ?thesis
      by (simp add: square_ring_loop.simps [of step ring n] Let_def)
  qed
qed

lemma length_square_rings:
  "1 \<le> ring \<Longrightarrow> length (rounds (square_ring step) ring k) = 4 * k * (2 * ring + k - 1)"
proof (induction k arbitrary: ring)
  case 0
  show ?case by simp
next
  case (Suc k)
  then have "length (rounds (square_ring step) (Suc ring) k) = 4 * k * (2 * Suc ring + k - 1)"
    by simp
  with Suc.prems show ?case
    by (simp add: length_square_ring algebra_simps)
qed

lemma square_ring_points_prefix:
  assumes "n \<le> 1 + 4 * r * (r + 1)"
  shows "square_ring_points step n = take n ((0, 0) # rounds (square_ring step) 1 r)"
proof (cases n)
  case 0
  then show ?thesis by (simp add: square_ring_points_def)
next
  case (Suc m)
  with assms have "m \<le> length (rounds (square_ring step) 1 r)"
    by (simp add: length_square_rings)
  from square_ring_loop_prefix [OF this] Suc show ?thesis
    by (simp add: square_ring_points_def)
qed

text \<open>In other words, the concatenation of the iterations \<open>i, \<dots>, i + k - 1\<close>.\<close>

lemma rounds_concat: "rounds body i k = concat (map body [i..<i + k])"
  by (induction k arbitrary: i) (simp_all add: upt_rec)


lemma scale_max:
  assumes "0 \<le> step" "max \<bar>fst q\<bar> \<bar>snd q\<bar> = int r"
  shows "max \<bar>fst (scale step q)\<bar> \<bar>snd (scale step q)\<bar> = real r * step"
proof -
  have "max \<bar>fst (scale step q)\<bar> \<bar>snd (scale step q)\<bar> =
      max (real_of_int \<bar>fst q\<bar> * step) (real_of_int \<bar>snd q\<bar> * step)"
    using assms(1) by (simp add: scale_def abs_mult)
  also have "\<dots> = max (real_of_int \<bar>fst q\<bar>) (real_of_int \<bar>snd q\<bar>) * step"
    using assms(1) by (simp add: max_mult_distrib_right)
  also have "\<dots> = real_of_int (max \<bar>fst q\<bar> \<bar>snd q\<bar>) * step"
    by (simp only: of_int_max)
  also have "\<dots> = real r * step" by (simp only: assms(2) of_int_of_nat_eq)
  finally show ?thesis .
qed

lemma square_ring_point:
  assumes "0 \<le> step" "p \<in> set (square_ring step r)"
  shows "max \<bar>fst p\<bar> \<bar>snd p\<bar> = real r * step \<and>
         (\<exists>i j :: int. p = (of_int i * step, of_int j * step))"
proof -
  from assms(2) obtain q where q: "q \<in> set (square_ring_lattice r)" "p = scale step q"
    by (auto simp: square_ring_scaled)
  from q(1) have "max \<bar>fst q\<bar> \<bar>snd q\<bar> = int r" by (rule square_ring_lattice_max)
  with assms(1) have "max \<bar>fst p\<bar> \<bar>snd p\<bar> = real r * step"
    unfolding q(2) by (rule scale_max)
  moreover have "p = (of_int (fst q) * step, of_int (snd q) * step)"
    by (simp add: q(2) scale_def)
  ultimately show ?thesis by blast
qed

lemma square_ring_corner_count:
  assumes "step \<noteq> 0" "1 \<le> r"
  shows "count_list (square_ring step r) (- (real r * step), - (real r * step)) = 1"
    and "count_list (square_ring step r) (real r * step, - (real r * step)) = 1"
    and "count_list (square_ring step r) (real r * step, real r * step) = 1"
    and "count_list (square_ring step r) (- (real r * step), real r * step) = 1"
proof -
  have d: "distinct (square_ring step r)" using assms by (rule distinct_square_ring)
  have "scale step (- int r, - int r) \<in> set (square_ring step r)"
    "scale step (int r, - int r) \<in> set (square_ring step r)"
    "scale step (int r, int r) \<in> set (square_ring step r)"
    "scale step (- int r, int r) \<in> set (square_ring step r)"
    using assms(2) by (simp_all add: square_ring_scaled square_ring_lattice_corners)
  then have "(- (real r * step), - (real r * step)) \<in> set (square_ring step r)"
    "(real r * step, - (real r * step)) \<in> set (square_ring step r)"
    "(real r * step, real r * step) \<in> set (square_ring step r)"
    "(- (real r * step), real r * step) \<in> set (square_ring step r)"
    by (simp_all add: scale_def)
  with d show "count_list (square_ring step r) (- (real r * step), - (real r * step)) = 1"
    and "count_list (square_ring step r) (real r * step, - (real r * step)) = 1"
    and "count_list (square_ring step r) (real r * step, real r * step) = 1"
    and "count_list (square_ring step r) (- (real r * step), real r * step) = 1"
    by (simp_all add: count_list_distinct)
qed

lemma square_ring_points_first: "square_ring_points step 1 = [(0, 0)]"
  by (simp add: square_ring_points_def square_ring_loop.simps [of step "Suc 0" 0])

lemma square_ring_1:
  "square_ring 1 (Suc 0) = [(-1, -1), (0, -1), (1, -1), (1, 0), (1, 1), (0, 1), (-1, 1), (-1, 0)]"
  by (simp add: square_ring_def py_range_def py_range_down_def upto_rec1)

subsection \<open>The snake example\<close>

lemma snake_points_example:
  "snake_points 10 2 10 5 = [(0, 0), (10, 0), (10, 20), (0, 20), (0, 40)]"
  by (simp add: snake_points_def snake_loop.simps snake_row_def py_range_def py_range_down_def
      Let_def upto_rec1)

lemma main_position:
  assumes "0 < args_count args" "0 < args_size args"
  shows "map position (fst (main R F entropy args)) =
     map (\<lambda>p. (args_start_x args + fst p, args_start_y args + snd p))
       (take (length (fst (main R F entropy args)))
          (selected_points F args (nat (args_count args))))"
  using assms main_loop_position [of R args 0] by (simp add: main_run)

definition snake_example_args :: args where
  "snake_example_args =
     default_args\<lparr>args_count := 5, args_pattern := Snake, args_size := 10, args_columns := 2\<rparr>"

lemma snake_example_run:
  assumes "randint_in_range R"
  shows "map position (fst (main R F entropy snake_example_args)) =
           [(0, 0), (10, 0), (10, 20), (0, 20), (0, 40)] \<and>
         map obj_z_index (fst (main R F entropy snake_example_args)) = [0, 1, 2, 3, 4] \<and>
         map obj_kind (fst (main R F entropy snake_example_args)) =
           [''rectangle'', ''ellipse'', ''rectangle'', ''ellipse'', ''rectangle'']"
proof -
  let ?out = "fst (main R F entropy snake_example_args)"
  have len: "length ?out = 5"
    by (simp add: main_length [OF assms] snake_example_args_def default_args_def)
  have five: "[0..<5] = [0, 1, 2, 3, 4::nat]" by (simp add: upt_rec)
  have pts: "selected_points F snake_example_args 5 = [(0, 0), (10, 0), (10, 20), (0, 20), (0, 40)]"
    by (simp add: selected_points_def snake_example_args_def default_args_def snake_points_example)
  have cfg: "nat (args_count snake_example_args) = 5" "args_start_x snake_example_args = 0"
    "args_start_y snake_example_args = 0"
    by (simp_all add: snake_example_args_def default_args_def)
  have "map position ?out =
      map (\<lambda>p. (args_start_x snake_example_args + fst p, args_start_y snake_example_args + snd p))
        (take (length ?out) (selected_points F snake_example_args (nat (args_count snake_example_args))))"
    by (rule main_position) (simp_all add: snake_example_args_def default_args_def)
  then have "map position ?out = [(0, 0), (10, 0), (10, 20), (0, 20), (0, 40)]"
    by (simp only: cfg len pts) simp
  moreover have "map obj_z_index ?out = [0, 1, 2, 3, 4]"
    by (simp only: main_z_index len five) simp
  moreover have "map obj_kind ?out =
      [''rectangle'', ''ellipse'', ''rectangle'', ''ellipse'', ''rectangle'']"
    by (simp only: main_kind len five) (simp add: kind_of_index_def)
  ultimately show ?thesis by simp
qed

subsection \<open>The spiral as a walk on the lattice\<close>

text \<open>
  The walk of the specification, one unit move at a time. A walker stands on a lattice
  point, heads in one of four directions and has \<open>w_left\<close> moves left in its leg of
  length \<open>w_leg_len\<close>. When the leg is used up it turns (right, up, left, down, right,
  \<dots>), and the leg length grows by one after every upward and every downward leg.
  \<open>spiral_lattice_path n\<close> is the list of the first \<open>n\<close> points of the walk that
  starts at the origin heading right with leg length 1.
\<close>

datatype heading = Rightwards | Upwards | Leftwards | Downwards

fun delta :: "heading \<Rightarrow> int \<times> int" where
  "delta Rightwards = (1, 0)"
| "delta Upwards = (0, 1)"
| "delta Leftwards = (- 1, 0)"
| "delta Downwards = (0, - 1)"

fun turn :: "heading \<Rightarrow> heading" where
  "turn Rightwards = Upwards"
| "turn Upwards = Leftwards"
| "turn Leftwards = Downwards"
| "turn Downwards = Rightwards"

fun next_leg_len :: "heading \<Rightarrow> nat \<Rightarrow> nat" where
  "next_leg_len Rightwards l = l"
| "next_leg_len Upwards l = l + 1"
| "next_leg_len Leftwards l = l"
| "next_leg_len Downwards l = l + 1"

record walker =
  w_x :: int
  w_y :: int
  w_heading :: heading
  w_leg_len :: nat
  w_left :: nat

definition walk_step :: "walker \<Rightarrow> walker" where
  "walk_step w =
     (let x = w_x w + fst (delta (w_heading w));
          y = w_y w + snd (delta (w_heading w))
      in if w_left w \<le> 1
         then \<lparr>w_x = x, w_y = y, w_heading = turn (w_heading w),
               w_leg_len = next_leg_len (w_heading w) (w_leg_len w),
               w_left = next_leg_len (w_heading w) (w_leg_len w)\<rparr>
         else \<lparr>w_x = x, w_y = y, w_heading = w_heading w, w_leg_len = w_leg_len w,
               w_left = w_left w - 1\<rparr>)"

fun walk :: "walker \<Rightarrow> nat \<Rightarrow> (int \<times> int) list" where
  "walk w 0 = []"
| "walk w (Suc n) = (w_x (walk_step w), w_y (walk_step w)) # walk (walk_step w) n"

definition spiral_lattice_path :: "nat \<Rightarrow> (int \<times> int) list" where
  "spiral_lattice_path n =
     (if n = 0 then []
      else (0, 0) # walk \<lparr>w_x = 0, w_y = 0, w_heading = Rightwards, w_leg_len = 1, w_left = 1\<rparr> (n - 1))"

lemma walk_append: "walk w (a + b) = walk w a @ walk ((walk_step ^^ a) w) b"
  by (induction a arbitrary: w) (simp_all add: funpow_swap1)

lemma take_walk: "k \<le> n \<Longrightarrow> take k (walk w n) = walk w k"
proof (induction k arbitrary: w n)
  case 0
  show ?case by simp
next
  case (Suc k)
  then obtain m where "n = Suc m" by (cases n) auto
  with Suc show ?case by simp
qed

lemma walk_leg_state:
  "(walk_step ^^ Suc k) \<lparr>w_x = x, w_y = y, w_heading = d, w_leg_len = l, w_left = Suc k\<rparr> =
     \<lparr>w_x = x + int (Suc k) * fst (delta d), w_y = y + int (Suc k) * snd (delta d),
      w_heading = turn d, w_leg_len = next_leg_len d l, w_left = next_leg_len d l\<rparr>"
proof (induction k arbitrary: x y)
  case 0
  show ?case by (simp add: walk_step_def)
next
  case (Suc k)
  have "(walk_step ^^ Suc (Suc k)) \<lparr>w_x = x, w_y = y, w_heading = d, w_leg_len = l, w_left = Suc (Suc k)\<rparr> =
      (walk_step ^^ Suc k) (walk_step \<lparr>w_x = x, w_y = y, w_heading = d, w_leg_len = l, w_left = Suc (Suc k)\<rparr>)"
    by (simp only: funpow_Suc_right comp_def)
  also have "walk_step \<lparr>w_x = x, w_y = y, w_heading = d, w_leg_len = l, w_left = Suc (Suc k)\<rparr> =
      \<lparr>w_x = x + fst (delta d), w_y = y + snd (delta d), w_heading = d, w_leg_len = l, w_left = Suc k\<rparr>"
    by (simp add: walk_step_def)
  finally show ?case
    by (simp only: Suc.IH) (simp add: algebra_simps)
qed

lemma walk_leg:
  "map (scale step) (walk \<lparr>w_x = x, w_y = y, w_heading = d, w_leg_len = l, w_left = Suc k\<rparr> (Suc k)) =
     spiral_leg step (fst (delta d)) (snd (delta d)) x y (Suc k)"
proof (induction k arbitrary: x y)
  case 0
  show ?case by (simp add: walk_step_def scale_def)
next
  case (Suc k)
  have step1: "walk_step \<lparr>w_x = x, w_y = y, w_heading = d, w_leg_len = l, w_left = Suc (Suc k)\<rparr> =
      \<lparr>w_x = x + fst (delta d), w_y = y + snd (delta d), w_heading = d, w_leg_len = l, w_left = Suc k\<rparr>"
    by (simp add: walk_step_def)
  show ?case
    using Suc.IH [of "x + fst (delta d)" "y + snd (delta d)"]
    by (simp only: walk.simps(2) [of _ "Suc k"] step1 spiral_leg.simps(2) [of _ _ _ _ _ "Suc k"]
          list.map) (simp add: scale_def)
qed


definition round_start :: "int \<Rightarrow> int \<Rightarrow> nat \<Rightarrow> walker" where
  "round_start x y l = \<lparr>w_x = x, w_y = y, w_heading = Rightwards, w_leg_len = l, w_left = l\<rparr>"

lemma walk_round:
  assumes "1 \<le> l"
  shows "map (scale step) (walk (round_start x y l) (4 * l + 2)) = spiral_round step x y l"
    and "(walk_step ^^ (4 * l + 2)) (round_start x y l) = round_start (x - 1) (y - 1) (l + 2)"
proof -
  from assms obtain k where l: "l = Suc k" by (cases l) auto
  define m where "m = Suc l"
  let ?w0 = "\<lparr>w_x = x, w_y = y, w_heading = Rightwards, w_leg_len = l, w_left = l\<rparr>"
  let ?w1 = "\<lparr>w_x = x + int l, w_y = y, w_heading = Upwards, w_leg_len = l, w_left = l\<rparr>"
  let ?w2 = "\<lparr>w_x = x + int l, w_y = y + int l, w_heading = Leftwards, w_leg_len = m,
              w_left = m\<rparr>"
  let ?w3 = "\<lparr>w_x = x - 1, w_y = y + int l, w_heading = Downwards, w_leg_len = m,
              w_left = m\<rparr>"
  let ?w4 = "\<lparr>w_x = x - 1, w_y = y - 1, w_heading = Rightwards, w_leg_len = Suc m,
              w_left = Suc m\<rparr>"
  have s0: "(walk_step ^^ l) ?w0 = ?w1"
    using walk_leg_state [of k x y Rightwards l] by (simp add: l m_def)
  have s1: "(walk_step ^^ l) ?w1 = ?w2"
    using walk_leg_state [of k "x + int l" y Upwards l] by (simp add: l m_def)
  have s2: "(walk_step ^^ m) ?w2 = ?w3"
    using walk_leg_state [of l "x + int l" "y + int l" Leftwards m] by (simp add: m_def)
  have s3: "(walk_step ^^ m) ?w3 = ?w4"
    using walk_leg_state [of l "x - 1" "y + int l" Downwards m] by (simp add: m_def)
  have p0: "map (scale step) (walk ?w0 l) = spiral_leg step 1 0 x y l"
    using walk_leg [of step x y Rightwards l k] by (simp add: l)
  have p1: "map (scale step) (walk ?w1 l) = spiral_leg step 0 1 (x + int l) y l"
    using walk_leg [of step "x + int l" y Upwards l k] by (simp add: l)
  have p2: "map (scale step) (walk ?w2 m) = spiral_leg step (- 1) 0 (x + int l) (y + int l) m"
    using walk_leg [of step "x + int l" "y + int l" Leftwards m l] by (simp add: m_def)
  have p3: "map (scale step) (walk ?w3 m) = spiral_leg step 0 (- 1) (x - 1) (y + int l) m"
    using walk_leg [of step "x - 1" "y + int l" Downwards m l] by (simp add: m_def)
  have e0: "walk ?w0 (l + n) = walk ?w0 l @ walk ?w1 n" for n
    by (simp only: walk_append s0)
  have e1: "walk ?w1 (l + n) = walk ?w1 l @ walk ?w2 n" for n
    by (simp only: walk_append s1)
  have e2: "walk ?w2 (m + n) = walk ?w2 m @ walk ?w3 n" for n
    by (simp only: walk_append s2)
  have split: "4 * l + 2 = l + (l + (m + m))" by (simp add: m_def)
  have w0: "round_start x y l = ?w0" by (simp add: round_start_def)
  have w4: "round_start (x - 1) (y - 1) (l + 2) = ?w4" by (simp add: round_start_def m_def)
  have sr: "spiral_round step x y l =
      spiral_leg step 1 0 x y l @ spiral_leg step 0 1 (x + int l) y l @
      spiral_leg step (- 1) 0 (x + int l) (y + int l) m @
      spiral_leg step 0 (- 1) (x - 1) (y + int l) m"
    by (simp add: spiral_round_def m_def)
  have "walk ?w0 (l + (l + (m + m))) = walk ?w0 l @ walk ?w1 l @ walk ?w2 m @ walk ?w3 m"
    by (simp only: e0 e1 e2)
  then show "map (scale step) (walk (round_start x y l) (4 * l + 2)) = spiral_round step x y l"
    by (simp only: split w0 sr map_append p0 p1 p2 p3)
  have split': "4 * l + 2 = m + (m + (l + l))" by (simp add: m_def)
  have "(walk_step ^^ (m + (m + (l + l)))) ?w0 =
      (walk_step ^^ m) ((walk_step ^^ m) ((walk_step ^^ l) ((walk_step ^^ l) ?w0)))"
    by (simp only: funpow_add o_apply)
  then show "(walk_step ^^ (4 * l + 2)) (round_start x y l) = round_start (x - 1) (y - 1) (l + 2)"
    by (simp only: split' w0 w4 s0 s1 s2 s3)
qed

lemma spiral_loop_walk:
  "1 \<le> l \<Longrightarrow> spiral_loop step x y l n = map (scale step) (walk (round_start x y l) n)"
proof (induction step x y l n rule: spiral_loop.induct)
  case (1 step x y l n)
  note round = walk_round(1) [OF "1.prems", of step x y] walk_round(2) [OF "1.prems", of x y]
  show ?case
  proof (cases "n \<le> 4 * l + 2")
    case True
    then have "spiral_loop step x y l n = take n (spiral_round step x y l)"
      by (simp add: spiral_loop.simps [of step x y l n] length_spiral_round)
    also have "\<dots> = map (scale step) (take n (walk (round_start x y l) (4 * l + 2)))"
      by (simp only: round(1) [symmetric] take_map)
    also have "\<dots> = map (scale step) (walk (round_start x y l) n)"
      using True by (simp only: take_walk)
    finally show ?thesis .
  next
    case False
    then have n: "(4 * l + 2) + (n - (4 * l + 2)) = n" by simp
    from False have "spiral_loop step x y l n =
        spiral_round step x y l @ spiral_loop step (x - 1) (y - 1) (l + 2) (n - (4 * l + 2))"
      by (simp add: spiral_loop.simps [of step x y l n] length_spiral_round)
    also have "spiral_loop step (x - 1) (y - 1) (l + 2) (n - (4 * l + 2)) =
        map (scale step) (walk (round_start (x - 1) (y - 1) (l + 2)) (n - (4 * l + 2)))"
      using "1.IH" [OF refl] False "1.prems" by (simp add: length_spiral_round)
    finally have "spiral_loop step x y l n =
        map (scale step) (walk (round_start x y l) ((4 * l + 2) + (n - (4 * l + 2))))"
      by (simp only: walk_append [of _ "4 * l + 2"] map_append round)
    then show ?thesis by (simp only: n)
  qed
qed

lemma spiral_points_walk: "spiral_points step n = map (scale step) (spiral_lattice_path n)"
  using spiral_loop_walk [of 1 step 0 0 "n - 1"]
  by (simp add: spiral_points_def spiral_lattice_path_def round_start_def scale_def)

lemma spiral_lattice_path_10:
  "spiral_lattice_path 10 =
     [(0, 0), (1, 0), (1, 1), (0, 1), (- 1, 1), (- 1, 0), (- 1, - 1), (0, - 1), (1, - 1), (2, - 1)]"
  by (simp add: spiral_lattice_path_def eval_nat_numeral walk_step_def)

subsection \<open>Darkening a well-formed colour\<close>

text \<open>
  A well-formed colour is six hexadecimal digits, with or without the leading \<open>#\<close>.
  \<open>channel color i\<close> is channel \<open>i\<close> (0 red, 1 green, 2 blue) as \<open>darken_hex\<close>
  reads it. For the channel values 0 to 255 the product with the double nearest to 0.72
  truncates to the same integer as the exact product \<open>72 * v / 100\<close>, so the real
  factor stands for the float here.
\<close>

definition is_hex_color :: "string \<Rightarrow> bool" where
  "is_hex_color color =
     (let digits = (case color of [] \<Rightarrow> [] | c # cs \<Rightarrow> if c = CHR ''#'' then cs else color)
      in length digits = 6 \<and> list_all (\<lambda>c. hex_value c \<noteq> None) digits)"

definition channel :: "string \<Rightarrow> nat \<Rightarrow> error + int" where
  "channel color i = py_int16 (take 2 (drop (2 * i) (dropWhile (\<lambda>c. c = CHR ''#'') color)))"

lemma hex_value_hash: "hex_value CHR ''#'' = None"
  by (simp add: hex_value_def)

lemma is_hex_color_digits:
  assumes "is_hex_color color"
  obtains a b c d e f va vb vc vd ve vf where
    "dropWhile (\<lambda>c. c = CHR ''#'') color = [a, b, c, d, e, f]"
    "hex_value a = Some va" "hex_value b = Some vb" "hex_value c = Some vc"
    "hex_value d = Some vd" "hex_value e = Some ve" "hex_value f = Some vf"
proof -
  define digits where
    "digits = (case color of [] \<Rightarrow> [] | c # cs \<Rightarrow> if c = CHR ''#'' then cs else color)"
  from assms have len: "length digits = 6" and hex: "list_all (\<lambda>c. hex_value c \<noteq> None) digits"
    by (simp_all add: is_hex_color_def digits_def Let_def)
  from len obtain a b c d e f where digits: "digits = [a, b, c, d, e, f]"
    by (auto simp: length_Suc_conv eval_nat_numeral)
  from hex obtain va vb vc vd ve vf where vals:
    "hex_value a = Some va" "hex_value b = Some vb" "hex_value c = Some vc"
    "hex_value d = Some vd" "hex_value e = Some ve" "hex_value f = Some vf"
    by (auto simp: digits)
  from vals(1) have "a \<noteq> CHR ''#''" by (auto simp: hex_value_hash)
  then have "dropWhile (\<lambda>c. c = CHR ''#'') color = [a, b, c, d, e, f]"
    using digits by (auto simp: digits_def split: list.splits if_splits)
  from this vals show thesis by (rule that)
qed

lemma formatted_color:
  assumes "0 \<le> r" "r \<le> 255" "0 \<le> g" "g \<le> 255" "0 \<le> b" "b \<le> 255"
  shows "is_hex_color (CHR ''#'' # format_02x r @ format_02x g @ format_02x b)"
    and "channel (CHR ''#'' # format_02x r @ format_02x g @ format_02x b) 0 = Inr r"
    and "channel (CHR ''#'' # format_02x r @ format_02x g @ format_02x b) 1 = Inr g"
    and "channel (CHR ''#'' # format_02x r @ format_02x g @ format_02x b) 2 = Inr b"
proof -
  have d: "nat r div 16 < 16" "nat r mod 16 < 16" "nat g div 16 < 16" "nat g mod 16 < 16"
    "nat b div 16 < 16" "nat b mod 16 < 16"
    using assms by auto
  have fmt: "format_02x r = [hex_digit (nat r div 16), hex_digit (nat r mod 16)]"
    "format_02x g = [hex_digit (nat g div 16), hex_digit (nat g mod 16)]"
    "format_02x b = [hex_digit (nat b div 16), hex_digit (nat b mod 16)]"
    using assms by (simp_all add: format_02x_byte)
  have strip: "dropWhile (\<lambda>c. c = CHR ''#'') (CHR ''#'' # format_02x r @ format_02x g @ format_02x b)
      = [hex_digit (nat r div 16), hex_digit (nat r mod 16),
         hex_digit (nat g div 16), hex_digit (nat g mod 16),
         hex_digit (nat b div 16), hex_digit (nat b mod 16)]"
    using d by (simp add: fmt hex_digit_not_hash)
  show "is_hex_color (CHR ''#'' # format_02x r @ format_02x g @ format_02x b)"
    using d by (simp add: is_hex_color_def fmt hex_value_hex_digit)
  have parse: "py_int16 [hex_digit (nat r div 16), hex_digit (nat r mod 16)] = Inr r"
    "py_int16 [hex_digit (nat g div 16), hex_digit (nat g mod 16)] = Inr g"
    "py_int16 [hex_digit (nat b div 16), hex_digit (nat b mod 16)] = Inr b"
    using py_int16_format_02x [OF assms(1,2)] py_int16_format_02x [OF assms(3,4)]
      py_int16_format_02x [OF assms(5,6)]
    by (simp_all only: fmt)
  show "channel (CHR ''#'' # format_02x r @ format_02x g @ format_02x b) 0 = Inr r"
    unfolding channel_def strip by (simp add: parse)
  show "channel (CHR ''#'' # format_02x r @ format_02x g @ format_02x b) 1 = Inr g"
    unfolding channel_def strip by (simp add: parse)
  show "channel (CHR ''#'' # format_02x r @ format_02x g @ format_02x b) 2 = Inr b"
    unfolding channel_def strip by (simp add: parse)
qed

lemma py_int_scaled:
  assumes "0 \<le> v"
  shows "py_int (of_int v * 0.72) = (72 * v) div 100"
proof -
  have frac: "of_int v * (0.72::real) = of_int (72 * v) / of_int 100" by simp
  have "\<lfloor>of_int v * (0.72::real)\<rfloor> = (72 * v) div 100"
    by (simp only: frac floor_divide_of_int_eq)
  moreover have "0 \<le> of_int v * (0.72::real)" using assms by simp
  ultimately show ?thesis by (simp only: py_int_def if_True)
qed

lemma scale_channel_072:
  assumes "0 \<le> v" "v \<le> 255"
  shows "scale_channel v 0.72 = (72 * v) div 100" and "scale_channel v 0.72 \<le> v"
proof -
  have bounds: "0 \<le> (72 * v) div 100" "(72 * v) div 100 \<le> v" using assms by auto
  have "scale_channel v 0.72 = max 0 (min 255 ((72 * v) div 100))"
    unfolding scale_channel_def by (simp only: py_int_scaled [OF assms(1)])
  with bounds assms show "scale_channel v 0.72 = (72 * v) div 100" by simp
  with bounds show "scale_channel v 0.72 \<le> v" by simp
qed


lemma darken_hex_channels:
  assumes "is_hex_color color"
  obtains r g b where
    "channel color 0 = Inr r" "channel color 1 = Inr g" "channel color 2 = Inr b"
    "0 \<le> r" "r \<le> 255" "0 \<le> g" "g \<le> 255" "0 \<le> b" "b \<le> 255"
    "darken_hex color factor =
       Inr (CHR ''#'' # format_02x (scale_channel r factor) @
              format_02x (scale_channel g factor) @ format_02x (scale_channel b factor))"
proof -
  from assms obtain a b c d e f va vb vc vd ve vf where
    strip: "dropWhile (\<lambda>c. c = CHR ''#'') color = [a, b, c, d, e, f]" and
    vals: "hex_value a = Some va" "hex_value b = Some vb" "hex_value c = Some vc"
      "hex_value d = Some vd" "hex_value e = Some ve" "hex_value f = Some vf"
    by (rule is_hex_color_digits)
  from vals have lt: "va < 16" "vb < 16" "vc < 16" "vd < 16" "ve < 16" "vf < 16"
    by (simp_all add: hex_value_less)
  show thesis
  proof (rule that [of "int (16 * va + vb)" "int (16 * vc + vd)" "int (16 * ve + vf)"])
    show "channel color 0 = Inr (int (16 * va + vb))"
      unfolding channel_def strip using py_int16_pair [OF vals(1,2)] by simp
    show "channel color 1 = Inr (int (16 * vc + vd))"
      unfolding channel_def strip using py_int16_pair [OF vals(3,4)] by simp
    show "channel color 2 = Inr (int (16 * ve + vf))"
      unfolding channel_def strip using py_int16_pair [OF vals(5,6)] by simp
    show "0 \<le> int (16 * va + vb)" "0 \<le> int (16 * vc + vd)" "0 \<le> int (16 * ve + vf)"
      by simp_all
    show "int (16 * va + vb) \<le> 255" "int (16 * vc + vd) \<le> 255" "int (16 * ve + vf) \<le> 255"
      using lt by simp_all
    show "darken_hex color factor =
       Inr (CHR ''#'' # format_02x (scale_channel (int (16 * va + vb)) factor) @
              format_02x (scale_channel (int (16 * vc + vd)) factor) @
              format_02x (scale_channel (int (16 * ve + vf)) factor))"
      using strip vals by (rule darken_hex_six)
  qed
qed

lemma darken_example:
  "darken_hex ''#ff8040'' 0.72 = Inr ''#b75c2e''"
  "darken_hex ''#b75c2e'' 0.72 = Inr ''#834221''"
  by (simp_all add: darken_hex_def py_int16_def hex_value_def py_int_def format_02x_def
      to_hex.simps hex_digit_def Let_def)

section \<open>The claims\<close>

subsection \<open>C1: number of records and their indices\<close>

text \<open>
  Claim C1, as amended. Let the library's \<open>randint\<close> keep its range. For every
  configuration with count \<open>N\<close> and with \<open>size > 0\<close> or \<open>N \<le> 0\<close>, the run emits exactly
  \<open>max(N, 0)\<close> records (none when \<open>N \<le> 0\<close>, still a success), the \<open>z_index\<close> fields
  of the emitted records are \<open>0, 1, \<dots>, N - 1\<close> in emission order, and the exit status
  is 0.
\<close>

theorem emitted_count_and_indices:
  assumes "randint_in_range R" and "0 < args_size args \<or> args_count args \<le> 0"
  shows "length (fst (main R F entropy args)) = nat (max (args_count args) 0) \<and>
         map obj_z_index (fst (main R F entropy args)) =
           map int [0..<nat (max (args_count args) 0)] \<and>
         exit_status (snd (main R F entropy args)) = 0"
  using main_length [OF assms, of F entropy] main_z_index [of R F entropy args]
    main_status [OF assms, of F entropy]
  by simp

theorem emitted_count_and_indices_witness:
  "randint_in_range lcg \<and>
   0 < args_size (default_args\<lparr>args_count := 3\<rparr>) \<and>
   length (fst (main lcg exact_arith 0 (default_args\<lparr>args_count := 3\<rparr>))) = 3 \<and>
   map obj_z_index (fst (main lcg exact_arith 0 (default_args\<lparr>args_count := 3\<rparr>))) = [0, 1, 2] \<and>
   exit_status (snd (main lcg exact_arith 0 (default_args\<lparr>args_count := 3\<rparr>))) = 0"
proof -
  have size: "0 < args_size (default_args\<lparr>args_count := 3\<rparr>)"
    by (simp add: default_args_def)
  then have "0 < args_size (default_args\<lparr>args_count := 3\<rparr>) \<or>
      args_count (default_args\<lparr>args_count := 3\<rparr>) \<le> 0" ..
  moreover have "[0..<3] = [0, 1, 2::nat]" by (simp add: upt_rec)
  ultimately show ?thesis
    using emitted_count_and_indices [OF lcg_in_range, of "default_args\<lparr>args_count := 3\<rparr>"
        exact_arith 0]
      size lcg_in_range
    by simp

qed

text \<open>
  The claim as stated, for every configuration, fails where \<open>size \<le> 0 < count\<close>:
  with \<open>count = 1\<close> and \<open>size = 0\<close> the run stops at the size check and emits no
  record, where \<open>max(count, 0) = 1\<close>.
\<close>

theorem emitted_count_size_zero_counterexample:
  "length (fst (main lcg exact_arith 0 (default_args\<lparr>args_count := 1, args_size := 0\<rparr>))) \<noteq>
     nat (max (args_count (default_args\<lparr>args_count := 1, args_size := 0\<rparr>)) 0)"
  by (simp add: main_def)

subsection \<open>C2: the size check\<close>

text \<open>
  Claim C2, as amended. For every configuration with \<open>size \<le> 0\<close>: if \<open>count > 0\<close>
  the run fails with the usage error \<open>--size must be > 0\<close> before any output; if
  \<open>count \<le> 0\<close> the run returns 0 with no output, because \<open>count\<close> is tested
  first.
\<close>

theorem size_check:
  assumes "args_size args \<le> 0"
  shows "main R F entropy args =
     (if 0 < args_count args then ([], Raised (SystemExit ''--size must be > 0''))
      else ([], Returned 0))"
  using assms by (simp add: main_def)

theorem size_check_witness:
  "args_size (default_args\<lparr>args_count := 3, args_size := - 1\<rparr>) \<le> 0 \<and>
   main lcg exact_arith 0 (default_args\<lparr>args_count := 3, args_size := - 1\<rparr>) =
     ([], Raised (SystemExit ''--size must be > 0'')) \<and>
   exit_status (Raised (SystemExit ''--size must be > 0'')) \<noteq> 0"
proof -
  have "args_size (default_args\<lparr>args_count := 3, args_size := - 1\<rparr>) \<le> 0" by simp
  from size_check [OF this, of lcg exact_arith 0] show ?thesis
    by (simp add: exit_status_def)
qed

text \<open>
  The claim as stated, regardless of \<open>count\<close>, fails at \<open>count = 0\<close>,
  \<open>size = 0\<close>: the run is a success with exit status 0.
\<close>

theorem size_check_counterexample:
  "args_size (default_args\<lparr>args_count := 0, args_size := 0\<rparr>) \<le> 0 \<and>
   main lcg exact_arith 0 (default_args\<lparr>args_count := 0, args_size := 0\<rparr>) = ([], Returned 0) \<and>
   exit_status (snd (main lcg exact_arith 0 (default_args\<lparr>args_count := 0, args_size := 0\<rparr>))) = 0"
  by (simp add: main_def exit_status_def)

subsection \<open>C9: the kind alternates with the index\<close>

text \<open>
  Claim C9. In every run, whatever the pattern, the seed, the random source, the double
  arithmetic and the rest of the configuration, the record emitted at index \<open>i\<close> has kind
  \<open>rectangle\<close> when \<open>i\<close> is even and \<open>ellipse\<close> when \<open>i\<close> is odd; its
  \<open>z_index\<close> is \<open>i\<close>, and \<open>i\<close> lies in \<open>[0, count)\<close>.
\<close>

theorem kind_by_parity:
  assumes "i < length (fst (main R F entropy args))"
  shows "obj_kind (fst (main R F entropy args) ! i) =
           (if even i then ''rectangle'' else ''ellipse'') \<and>
         obj_z_index (fst (main R F entropy args) ! i) = int i \<and>
         int i < args_count args"
proof -
  let ?out = "fst (main R F entropy args)"
  have "obj_kind (?out ! i) = map obj_kind ?out ! i" using assms by simp
  also have "\<dots> = kind_of_index i" using assms by (simp only: main_kind) simp
  finally have k: "obj_kind (?out ! i) = (if even i then ''rectangle'' else ''ellipse'')"
    by (simp add: kind_of_index_def)
  have "obj_z_index (?out ! i) = map obj_z_index ?out ! i" using assms by simp
  also have "\<dots> = int i" using assms by (simp only: main_z_index) simp
  finally have z: "obj_z_index (?out ! i) = int i" .
  have "int i < args_count args" using assms main_length_le [of R F entropy args] by simp
  with k z show ?thesis by blast
qed

theorem kind_by_parity_witness:
  "1 < length (fst (main lcg exact_arith 0 (default_args\<lparr>args_count := 2\<rparr>))) \<and>
   obj_kind (fst (main lcg exact_arith 0 (default_args\<lparr>args_count := 2\<rparr>)) ! 1) = ''ellipse'' \<and>
   obj_z_index (fst (main lcg exact_arith 0 (default_args\<lparr>args_count := 2\<rparr>)) ! 1) = 1"
proof -
  have "length (fst (main lcg exact_arith 0 (default_args\<lparr>args_count := 2\<rparr>))) = 2"
    by (simp add: main_length [OF lcg_in_range] default_args_def)
  then have len: "1 < length (fst (main lcg exact_arith 0 (default_args\<lparr>args_count := 2\<rparr>)))"
    by simp
  from kind_by_parity [OF this] len show ?thesis by simp
qed

subsection \<open>C8: a seeded run reproduces its colours\<close>

text \<open>
  Claim C8. With an integer seed, two runs of the same configuration produce the same
  output, whatever entropy the operating system would have supplied to an unseeded generator; and the fill and stroke colours of the records are
  the first \<open>n\<close> pairs of a sequence fixed by the seed alone, \<open>n\<close> being the number
  of records emitted.
\<close>

theorem seeded_colors_reproducible:
  assumes "args_seed args = Some s"
  shows "main R F entropy1 args = main R F entropy2 args \<and>
         map colors (fst (main R F entropy1 args)) =
           color_sequence R (lib_seed R s) (length (fst (main R F entropy1 args)))"
proof -
  have same: "main R F entropy1 args = main R F entropy2 args"
    using assms by (simp add: main_def Random_def)
  have "map colors (fst (main R F entropy1 args)) =
      color_sequence R (lib_seed R s) (length (fst (main R F entropy1 args)))"
  proof (cases "0 < args_count args \<and> 0 < args_size args")
    case True
    then show ?thesis
      using assms main_loop_colors [of R args 0 _ "lib_seed R s"]
      by (simp add: main_run Random_def)
  next
    case False
    then show ?thesis by (auto simp: main_def)
  qed
  with same show ?thesis by blast
qed

theorem seeded_colors_reproducible_witness:
  "args_seed (default_args\<lparr>args_count := 2, args_seed := Some 42\<rparr>) = Some 42 \<and>
   main lcg exact_arith 1 (default_args\<lparr>args_count := 2, args_seed := Some 42\<rparr>) =
     main lcg exact_arith 2 (default_args\<lparr>args_count := 2, args_seed := Some 42\<rparr>) \<and>
   map colors (fst (main lcg exact_arith 1 (default_args\<lparr>args_count := 2, args_seed := Some 42\<rparr>))) =
     color_sequence lcg (lib_seed lcg 42)
       (length (fst (main lcg exact_arith 1 (default_args\<lparr>args_count := 2, args_seed := Some 42\<rparr>))))"
proof -
  have "args_seed (default_args\<lparr>args_count := 2, args_seed := Some 42\<rparr>) = Some 42" by simp
  from seeded_colors_reproducible [OF this, of lcg exact_arith 1 2] this show ?thesis by blast
qed

subsection \<open>C3: the snake example\<close>

text \<open>
  Claim C3, as amended. With \<open>count = 5\<close>, \<open>pattern = snake\<close>, \<open>size = 10\<close>,
  \<open>columns = 2\<close> and every other option at its default (\<open>row-gap = 10\<close>, start at the
  origin), the run emits the points
  \<open>(0,0), (10,0), (10,20), (0,20), (0,40)\<close> in that order, with \<open>z_index\<close> 0 to 4 and
  kinds rectangle, ellipse, rectangle, ellipse, rectangle: the rows are
  \<open>size + row-gap = 20\<close> apart.
\<close>

theorem snake_example:
  assumes "randint_in_range R"
  shows "map position (fst (main R F entropy snake_example_args)) =
           [(0, 0), (10, 0), (10, 20), (0, 20), (0, 40)] \<and>
         map obj_z_index (fst (main R F entropy snake_example_args)) = [0, 1, 2, 3, 4] \<and>
         map obj_kind (fst (main R F entropy snake_example_args)) =
           [''rectangle'', ''ellipse'', ''rectangle'', ''ellipse'', ''rectangle'']"
  using assms by (rule snake_example_run)

theorem snake_example_witness:
  "randint_in_range lcg \<and>
   map position (fst (main lcg exact_arith 0 snake_example_args)) =
     [(0, 0), (10, 0), (10, 20), (0, 20), (0, 40)] \<and>
   map obj_z_index (fst (main lcg exact_arith 0 snake_example_args)) = [0, 1, 2, 3, 4] \<and>
   map obj_kind (fst (main lcg exact_arith 0 snake_example_args)) =
     [''rectangle'', ''ellipse'', ''rectangle'', ''ellipse'', ''rectangle'']"
  using snake_example [OF lcg_in_range, of exact_arith 0] lcg_in_range by simp

text \<open>
  The points of the claim as stated, \<open>(0,0), (10,0), (10,10), (0,10), (0,20)\<close>, are
  not the points of the run: they are the points for \<open>row-gap = 0\<close>.
\<close>

theorem snake_example_counterexample:
  "map position (fst (main lcg exact_arith 0 snake_example_args)) \<noteq>
     [(0, 0), (10, 0), (10, 10), (0, 10), (0, 20)]"
  using snake_example_run [OF lcg_in_range, of exact_arith 0] by simp

subsection \<open>C4: the rings of the square pattern\<close>

text \<open>
  Claim C4. For every step size \<open>step > 0\<close> and every ring \<open>r \<ge> 1\<close>: the first point
  of the SquareRing sequence is \<open>(0,0)\<close>; the sequence then runs through the rings
  1, 2, 3, \<dots> in order (every prefix of at most \<open>1 + 4r(r+1)\<close> points is a prefix of
  the origin followed by the rings 1 to \<open>r\<close>); ring \<open>r\<close> has exactly \<open>8r\<close> points; and
  each of its four corners \<open>(\<plusminus>r*step, \<plusminus>r*step)\<close>, the only points with
  \<open>|x| = |y| = r*step\<close>, occurs exactly once in it.
\<close>

theorem square_ring_structure:
  assumes "0 < step" and "1 \<le> r"
  shows "square_ring_points step 1 = [(0, 0)] \<and>
         (\<forall>n. n \<le> 1 + 4 * r * (r + 1) \<longrightarrow>
            square_ring_points step n = take n ((0, 0) # rounds (square_ring step) 1 r)) \<and>
         length (square_ring step r) = 8 * r \<and>
         count_list (square_ring step r) (- (real r * step), - (real r * step)) = 1 \<and>
         count_list (square_ring step r) (real r * step, - (real r * step)) = 1 \<and>
         count_list (square_ring step r) (real r * step, real r * step) = 1 \<and>
         count_list (square_ring step r) (- (real r * step), real r * step) = 1"
proof -
  from assms(1) have "step \<noteq> 0" by simp
  note corners = square_ring_corner_count [OF this assms(2)]
  have "length (square_ring step r) = 8 * r" using assms(2) by (simp add: length_square_ring)
  with corners square_ring_points_first [of step] show ?thesis
    by (simp add: square_ring_points_prefix)
qed

theorem square_ring_structure_witness:
  "(0::real) < 1 \<and> (1::nat) \<le> 1 \<and>
   square_ring_points 1 9 =
     [(0, 0), (-1, -1), (0, -1), (1, -1), (1, 0), (1, 1), (0, 1), (-1, 1), (-1, 0)] \<and>
   length (square_ring 1 1) = 8 \<and>
   count_list (square_ring 1 1) (-1, -1) = 1 \<and>
   count_list (square_ring 1 1) (1, -1) = 1 \<and>
   count_list (square_ring 1 1) (1, 1) = 1 \<and>
   count_list (square_ring 1 1) (-1, 1) = 1"
proof -
  have "(0::real) < 1" "(1::nat) \<le> 1" by simp_all
  from square_ring_structure [OF this] show ?thesis
    by (simp add: square_ring_1 eval_nat_numeral)
qed

subsection \<open>C10: ring points lie on the square\<close>

text \<open>
  Claim C10. For every step size \<open>step > 0\<close> and every ring \<open>r \<ge> 1\<close>, every point
  \<open>(x, y)\<close> that the SquareRing generator yields in ring \<open>r\<close> has
  \<open>max(|x|, |y|) = r*step\<close>, and both coordinates are integer multiples of \<open>step\<close>.
\<close>

theorem square_ring_on_square:
  assumes "0 < step" and "1 \<le> r" and "p \<in> set (square_ring step r)"
  shows "max \<bar>fst p\<bar> \<bar>snd p\<bar> = real r * step \<and>
         (\<exists>i j :: int. p = (of_int i * step, of_int j * step))"
  using assms(1) assms(3) by (intro square_ring_point) simp_all

theorem square_ring_on_square_witness:
  "(0::real) < 10 \<and> (1::nat) \<le> 2 \<and> (20, - 10) \<in> set (square_ring 10 2) \<and>
   max \<bar>20\<bar> \<bar>- 10\<bar> = real 2 * (10::real)"
proof -
  have mem: "(20, - 10) \<in> set (square_ring 10 2)"
    by (simp add: square_ring_def py_range_def py_range_down_def upto_rec1)
  have "(0::real) < 10" "(1::nat) \<le> 2" by simp_all
  from square_ring_on_square [OF this mem] mem show ?thesis by simp
qed

subsection \<open>C5: the spiral is the lattice walk\<close>

text \<open>
  Claim C5. For every step size, the Spiral sequence is the lattice walk that starts at
  \<open>(0,0)\<close> and moves right \<open>L\<close>, up \<open>L\<close>, then with \<open>L + 1\<close> left and down, and so
  on with the leg length growing after every second leg, each coordinate multiplied by
  \<open>step\<close>: every prefix of the sequence is the scaled prefix of the walk of the same
  length. Its first ten points are the scaled
  \<open>(0,0), (1,0), (1,1), (0,1), (-1,1), (-1,0), (-1,-1), (0,-1), (1,-1), (2,-1)\<close>.
\<close>

theorem spiral_is_lattice_walk:
  "spiral_points step n = map (scale step) (spiral_lattice_path n) \<and>
   spiral_points step 10 =
     map (scale step)
       [(0, 0), (1, 0), (1, 1), (0, 1), (- 1, 1), (- 1, 0), (- 1, - 1), (0, - 1), (1, - 1),
        (2, - 1)]"
  by (simp only: spiral_points_walk spiral_lattice_path_10)

theorem spiral_is_lattice_walk_witness:
  "spiral_points 10 4 = [(0, 0), (10, 0), (10, 10), (0, 10)] \<and>
   spiral_lattice_path 4 = [(0, 0), (1, 0), (1, 1), (0, 1)]"
proof -
  have "spiral_lattice_path 4 = [(0, 0), (1, 0), (1, 1), (0, 1)]"
    by (simp add: spiral_lattice_path_def eval_nat_numeral walk_step_def)
  with spiral_is_lattice_walk [of 10 4] show ?thesis
    by (simp add: scale_def)
qed

subsection \<open>C7: darkening never raises a channel\<close>

text \<open>
  Claim C7. For every well-formed 6-hex-digit colour and each of its three channels:
  \<open>darken_hex\<close> with factor 0.72 succeeds on the colour and again on its result; the
  channel of the result is the channel multiplied by 0.72, truncated to an integer and
  clamped to \<open>[0, 255]\<close>, which is \<open>72 * v div 100\<close>; and the channel does not
  increase at either application.
\<close>

theorem darken_non_increasing:
  assumes "is_hex_color color" and "i < 3"
  shows "\<exists>c1 c2 v v1 v2.
           darken_hex color 0.72 = Inr c1 \<and> darken_hex c1 0.72 = Inr c2 \<and>
           channel color i = Inr v \<and> channel c1 i = Inr v1 \<and> channel c2 i = Inr v2 \<and>
           v1 = max 0 (min 255 (py_int (of_int v * 0.72))) \<and>
           v2 = max 0 (min 255 (py_int (of_int v1 * 0.72))) \<and>
           v1 = (72 * v) div 100 \<and> v2 = (72 * v1) div 100 \<and>
           0 \<le> v2 \<and> v2 \<le> v1 \<and> v1 \<le> v \<and> v \<le> 255"
proof -
  from assms(1) obtain r g b where
    ch: "channel color 0 = Inr r" "channel color 1 = Inr g" "channel color 2 = Inr b" and
    rng: "0 \<le> r" "r \<le> 255" "0 \<le> g" "g \<le> 255" "0 \<le> b" "b \<le> 255" and
    dk: "darken_hex color 0.72 =
       Inr (CHR ''#'' # format_02x (scale_channel r 0.72) @
              format_02x (scale_channel g 0.72) @ format_02x (scale_channel b 0.72))"
    by (rule darken_hex_channels [where factor = "0.72"])
  define r1 g1 b1 where "r1 = scale_channel r 0.72" and "g1 = scale_channel g 0.72"
    and "b1 = scale_channel b 0.72"
  define r2 g2 b2 where "r2 = scale_channel r1 0.72" and "g2 = scale_channel g1 0.72"
    and "b2 = scale_channel b1 0.72"
  define c1 where "c1 = CHR ''#'' # format_02x r1 @ format_02x g1 @ format_02x b1"
  define c2 where "c2 = CHR ''#'' # format_02x r2 @ format_02x g2 @ format_02x b2"
  have rng1: "0 \<le> r1" "r1 \<le> 255" "0 \<le> g1" "g1 \<le> 255" "0 \<le> b1" "b1 \<le> 255"
    by (simp_all add: r1_def g1_def b1_def scale_channel_range)
  have rng2: "0 \<le> r2" "r2 \<le> 255" "0 \<le> g2" "g2 \<le> 255" "0 \<le> b2" "b2 \<le> 255"
    by (simp_all add: r2_def g2_def b2_def scale_channel_range)
  have d1: "darken_hex color 0.72 = Inr c1"
    by (simp only: dk c1_def r1_def g1_def b1_def)
  have d2: "darken_hex c1 0.72 = Inr c2"
    unfolding c1_def c2_def r2_def g2_def b2_def by (rule darken_hex_formatted [OF rng1])
  have ch1: "channel c1 0 = Inr r1" "channel c1 1 = Inr g1" "channel c1 2 = Inr b1"
    unfolding c1_def by (rule formatted_color [OF rng1])+
  have ch2: "channel c2 0 = Inr r2" "channel c2 1 = Inr g2" "channel c2 2 = Inr b2"
    unfolding c2_def by (rule formatted_color [OF rng2])+
  have step: "w = scale_channel v 0.72 \<Longrightarrow> 0 \<le> v \<Longrightarrow> v \<le> 255 \<Longrightarrow>
      w = max 0 (min 255 (py_int (of_int v * 0.72))) \<and> w = (72 * v) div 100 \<and> w \<le> v"
    for v w
    using scale_channel_072 [of v] by (simp add: scale_channel_def)
  from assms(2) consider "i = 0" | "i = 1" | "i = 2" by linarith
  then show ?thesis
  proof cases
    case 1
    from step [OF r1_def rng(1,2)] step [OF r2_def rng1(1,2)] rng(2) rng2(1)
    show ?thesis unfolding 1 using d1 d2 ch(1) ch1(1) ch2(1) by blast
  next
    case 2
    from step [OF g1_def rng(3,4)] step [OF g2_def rng1(3,4)] rng(4) rng2(3)
    show ?thesis unfolding 2 using d1 d2 ch(2) ch1(2) ch2(2) by blast
  next
    case 3
    from step [OF b1_def rng(5,6)] step [OF b2_def rng1(5,6)] rng(6) rng2(5)
    show ?thesis unfolding 3 using d1 d2 ch(3) ch1(3) ch2(3) by blast
  qed
qed

theorem darken_non_increasing_witness:
  "is_hex_color ''#ff8040'' \<and> (0::nat) < 3 \<and>
   darken_hex ''#ff8040'' 0.72 = Inr ''#b75c2e'' \<and>
   darken_hex ''#b75c2e'' 0.72 = Inr ''#834221'' \<and>
   channel ''#ff8040'' 0 = Inr 255 \<and>
   channel ''#b75c2e'' 0 = Inr 183 \<and>
   channel ''#834221'' 0 = Inr 131"
proof -
  have wf: "is_hex_color ''#ff8040''"
    by (simp add: is_hex_color_def hex_value_def)
  have ch: "channel ''#ff8040'' 0 = Inr 255"
    by (simp add: channel_def py_int16_def hex_value_def)
  have "(0::nat) < 3" by simp
  from darken_non_increasing [OF wf this] obtain c1 c2 v v1 v2 where
    "darken_hex ''#ff8040'' 0.72 = Inr c1" "darken_hex c1 0.72 = Inr c2"
    "channel ''#ff8040'' 0 = Inr v" "channel c1 0 = Inr v1" "channel c2 0 = Inr v2"
    "v1 = (72 * v) div 100" "v2 = (72 * v1) div 100"
    by blast
  with ch darken_example have "channel ''#b75c2e'' 0 = Inr 183" "channel ''#834221'' 0 = Inr 131"
    by simp_all
  with wf ch darken_example show ?thesis by simp
qed

end
